theory Spec2Isabelle
  imports Main
begin

section \<open>Data model\<close>

text \<open>
  Python strings are modelled as \<open>string\<close>; a code point beyond ASCII is written as its
  UTF-8 bytes, so the token type \<open>\<lambda>\<close> (U+03BB) is the two bytes \<open>0xCE 0xBB\<close>. The encoding
  is injective, so string equality in the model is string equality in the program.
\<close>

abbreviation (input) lam :: string where
  "lam \<equiv> [CHR 0xCE, CHR 0xBB]"

text \<open>
  Modelled from the spec: the class \<open>Token\<close> is not part of \<open>parser.py\<close>. The parser reads
  two attributes of a token, \<open>type\<close> and \<open>value\<close>.
\<close>

record Token =
  ttype :: string
  tvalue :: string

text \<open>
  Modelled from the spec: the token source (\<open>Lexer\<close>) is not part of \<open>parser.py\<close>. Its one
  operation \<open>next()\<close> produces the tokens of the input in order and, after the logical end
  of input, the designated end-marker token indefinitely.
\<close>

record Lexer =
  pending :: "Token list"
  end_marker :: Token

definition lexer_next :: "Lexer \<Rightarrow> Token \<times> Lexer" where
  "lexer_next lx =
     (case pending lx of
        [] \<Rightarrow> (end_marker lx, lx)
      | t # ts \<Rightarrow> (t, lx\<lparr>pending := ts\<rparr>))"

text \<open>
  Modelled from the spec: the node classes of \<open>lambda_calculus_ast\<close> are not part of
  \<open>parser.py\<close>. They are plain constructors that store what they are given; an
  \<open>Abstraction\<close> stores the node returned by \<open>_variable\<close> and the body.
\<close>

datatype Node =
    Variable string
  | Application Node Node
  | Abstraction Node Node

text \<open>\<open>ParserError(expected, found)\<close>.\<close>

datatype ParserError = ParserError (expected: string) (found: string)

text \<open>The attributes of a \<open>Parser\<close>: the token source and the current token.\<close>

record Parser =
  lexer :: Lexer
  token :: Token

text \<open>
  A method either returns a value or raises \<open>ParserError\<close>; in both cases the attributes of
  the parser keep what the method did to them before it stopped.
\<close>

type_synonym 'a result = "(ParserError + 'a) \<times> Parser"

section \<open>The parser\<close>

text \<open>\<open>__init__\<close>: store the token source and pull the first token.\<close>

definition init :: "Lexer \<Rightarrow> Parser" where
  "init lx = (case lexer_next lx of (t, lx') \<Rightarrow> \<lparr>lexer = lx', token = t\<rparr>)"

text \<open>\<open>_error\<close>: raise, reporting the type of the current token.\<close>

definition error :: "string \<Rightarrow> Parser \<Rightarrow> 'a result" where
  "error expct p = (Inl (ParserError expct (ttype (token p))), p)"

text \<open>\<open>_advance\<close>.\<close>

definition advance :: "Parser \<Rightarrow> Parser" where
  "advance p = (case lexer_next (lexer p) of (t, lx') \<Rightarrow> p\<lparr>lexer := lx', token := t\<rparr>)"

text \<open>\<open>_eat\<close>.\<close>

definition eat :: "string \<Rightarrow> Parser \<Rightarrow> unit result" where
  "eat prediction p =
     (if ttype (token p) = prediction then (Inr (), advance p)
      else error prediction p)"

text \<open>\<open>_variable\<close>.\<close>

definition variable :: "Parser \<Rightarrow> Node result" where
  "variable p =
     (if ttype (token p) = ''SYMBOL'' then
        (let name = tvalue (token p); p' = advance p
         in (Inr (Variable name), p'))
      else error ''SYMBOL'' p)"

text \<open>
  \<open>_expression\<close>, \<open>_application\<close> and \<open>_abstraction\<close> call each other. The first argument
  bounds the number of nested calls of \<open>_expression\<close>; \<open>None\<close> means that the bound was
  reached before the call returned or raised.
\<close>

fun expression :: "nat \<Rightarrow> Parser \<Rightarrow> Node result option"
  and application :: "nat \<Rightarrow> Parser \<Rightarrow> Node result option"
  and abstraction :: "nat \<Rightarrow> Parser \<Rightarrow> Node result option"
where
  "expression 0 p = None"
| "expression (Suc n) p =
     (if ttype (token p) = ''('' then application n p
      else if ttype (token p) \<in> set [lam, ''@''] then abstraction n p
      else if ttype (token p) = ''SYMBOL'' then Some (variable p)
      else Some (error (''(, '' @ lam @ '', @, or SYMBOL'') p))"
| "application n p =
     (if ttype (token p) = ''('' then
        (case expression n (advance p) of
           None \<Rightarrow> None
         | Some (Inl e, p1) \<Rightarrow> Some (Inl e, p1)
         | Some (Inr left_expression, p1) \<Rightarrow>
             (case expression n p1 of
                None \<Rightarrow> None
              | Some (Inl e, p2) \<Rightarrow> Some (Inl e, p2)
              | Some (Inr right_expression, p2) \<Rightarrow>
                  (case eat '')'' p2 of
                     (Inl e, p3) \<Rightarrow> Some (Inl e, p3)
                   | (Inr u, p3) \<Rightarrow>
                       Some (Inr (Application left_expression right_expression), p3))))
      else Some (error ''('' p))"
| "abstraction n p =
     (if ttype (token p) \<in> set [lam, ''@''] then
        (case variable (advance p) of
           (Inl e, p1) \<Rightarrow> Some (Inl e, p1)
         | (Inr var, p1) \<Rightarrow>
             (case eat ''.'' p1 of
                (Inl e, p2) \<Rightarrow> Some (Inl e, p2)
              | (Inr u, p2) \<Rightarrow>
                  (case expression n p2 of
                     None \<Rightarrow> None
                   | Some (Inl e, p3) \<Rightarrow> Some (Inl e, p3)
                   | Some (Inr body, p3) \<Rightarrow> Some (Inr (Abstraction var body), p3))))
      else Some (error (lam @ '' or @'') p))"

text \<open>\<open>parse\<close>.\<close>

definition parse :: "nat \<Rightarrow> Parser \<Rightarrow> Node result option" where
  "parse n p = expression n p"

section \<open>Two parser objects over a store of token sources\<close>

text \<open>
  A \<open>Parser\<close> keeps a reference to its token source, and \<open>next()\<close> mutates the source
  behind that reference. Where it matters whether two parsers share a source, the
  sources live in a store, a parser object holds the address of its source, and the
  methods read the source from the store and write it back.
\<close>

type_synonym store = "nat \<Rightarrow> Lexer"

record ParserObj =
  lexer_ref :: nat
  current :: Token

definition new_Parser :: "nat \<Rightarrow> store \<Rightarrow> ParserObj \<times> store" where
  "new_Parser l s =
     (let p = init (s l)
      in (\<lparr>lexer_ref = l, current = token p\<rparr>, s(l := lexer p)))"

definition parse_obj ::
  "nat \<Rightarrow> ParserObj \<Rightarrow> store \<Rightarrow> ((ParserError + Node) \<times> ParserObj \<times> store) option" where
  "parse_obj n a s =
     (case parse n \<lparr>lexer = s (lexer_ref a), token = current a\<rparr> of
        None \<Rightarrow> None
      | Some (r, p') \<Rightarrow> Some (r, a\<lparr>current := token p'\<rparr>, s(lexer_ref a := lexer p')))"

section \<open>The grammar\<close>

text \<open>
  The grammar of the specification, with the tree each derivation stands for:
  \<^verbatim>\<open>expression  := application | abstraction | variable\<close>,
  \<^verbatim>\<open>application := '(' expression expression ')'\<close>,
  \<^verbatim>\<open>abstraction := ('\<lambda>' | '@') variable '.' expression\<close>,
  \<^verbatim>\<open>variable    := SYMBOL\<close>.
  \<open>derives ts e\<close>: the token sequence \<open>ts\<close> is derived from \<open>expression\<close>, and \<open>e\<close> has a
  node of the matching kind, with the matching children, for every production used.
\<close>

inductive derives :: "Token list \<Rightarrow> Node \<Rightarrow> bool" where
  variable: "ttype t = ''SYMBOL'' \<Longrightarrow> derives [t] (Variable (tvalue t))"
| application:
    "ttype l = ''('' \<Longrightarrow> derives ts1 e1 \<Longrightarrow> derives ts2 e2 \<Longrightarrow> ttype r = '')'' \<Longrightarrow>
     derives (l # ts1 @ ts2 @ [r]) (Application e1 e2)"
| abstraction:
    "ttype l = lam \<or> ttype l = ''@'' \<Longrightarrow> ttype v = ''SYMBOL'' \<Longrightarrow> ttype d = ''.'' \<Longrightarrow>
     derives ts body \<Longrightarrow> derives (l # v # d # ts) (Abstraction (Variable (tvalue v)) body)"

code_pred derives .

text \<open>The number of nested calls of \<open>_expression\<close> that building a tree takes.\<close>

fun depth :: "Node \<Rightarrow> nat" where
  "depth (Variable name) = 1"
| "depth (Application l r) = Suc (max (depth l) (depth r))"
| "depth (Abstraction var body) = Suc (depth body)"

section \<open>Measures used in the proofs\<close>

text \<open>\<open>reaches p p'\<close>: \<open>p'\<close> is \<open>p\<close> after some number of calls of \<open>_advance\<close>.\<close>

definition reaches :: "Parser \<Rightarrow> Parser \<Rightarrow> bool" where
  "reaches p p' \<longleftrightarrow> (\<exists>k. p' = (advance ^^ k) p)"

text \<open>\<open>seen p k\<close>: the next \<open>k\<close> tokens the parser reads from \<open>p\<close> on, the current one first.\<close>

fun seen :: "Parser \<Rightarrow> nat \<Rightarrow> Token list" where
  "seen p 0 = []"
| "seen p (Suc k) = token p # seen (advance p) k"

text \<open>The tokens on which \<open>_expression\<close> calls itself again.\<close>

definition starts :: "Token \<Rightarrow> bool" where
  "starts t \<longleftrightarrow> ttype t = ''('' \<or> ttype t \<in> set [lam, ''@'']"

definition weight :: "Parser \<Rightarrow> nat" where
  "weight p = length (pending (lexer p)) + (if starts (token p) then 1 else 0)"
text \<open>
  The number of calls of \<open>_expression\<close> that \<open>expression n p\<close> makes, itself included: one,
  plus those made for the function position, for the argument position when the
  function position returned, and for the body of an abstraction when its variable and
  dot were accepted.
\<close>

fun calls :: "nat \<Rightarrow> Parser \<Rightarrow> nat" where
  "calls 0 p = 0"
| "calls (Suc n) p =
     Suc (if ttype (token p) = ''('' then
            calls n (advance p) +
            (case expression n (advance p) of
               Some (Inr left_expression, p1) \<Rightarrow> calls n p1
             | _ \<Rightarrow> 0)
          else if ttype (token p) \<in> set [lam, ''@''] then
            (case variable (advance p) of
               (Inr var, p1) \<Rightarrow>
                 (case eat ''.'' p1 of
                    (Inr u, p2) \<Rightarrow> calls n p2
                  | _ \<Rightarrow> 0)
             | _ \<Rightarrow> 0)
          else 0)"

text \<open>Shorthand for the tokens and token sources of the examples.\<close>

abbreviation (input) Tok :: "string \<Rightarrow> string \<Rightarrow> Token" where
  "Tok ty v \<equiv> \<lparr>ttype = ty, tvalue = v\<rparr>"

abbreviation (input) EOF :: Token where
  "EOF \<equiv> Tok ''EOF'' ''''"

abbreviation (input) source :: "Token list \<Rightarrow> Lexer" where
  "source ts \<equiv> \<lparr>pending = ts, end_marker = EOF\<rparr>"

abbreviation (input) at :: "Token \<Rightarrow> Token list \<Rightarrow> Parser" where
  "at t ts \<equiv> \<lparr>lexer = source ts, token = t\<rparr>"

section \<open>Basic facts\<close>

lemma init_Cons [simp]:
  "init \<lparr>pending = t # ts, end_marker = em\<rparr>
     = \<lparr>lexer = \<lparr>pending = ts, end_marker = em\<rparr>, token = t\<rparr>"
  by (simp add: init_def lexer_next_def)

lemma init_Nil [simp]:
  "init \<lparr>pending = [], end_marker = em\<rparr>
     = \<lparr>lexer = \<lparr>pending = [], end_marker = em\<rparr>, token = em\<rparr>"
  by (simp add: init_def lexer_next_def)

lemma advance_init: "advance p = init (lexer p)"
  by (simp add: advance_def init_def split: prod.splits)

lemma token_init: "token (init lx) = fst (lexer_next lx)"
  by (simp add: init_def split: prod.splits)

lemma end_marker_advance [simp]: "end_marker (lexer (advance p)) = end_marker (lexer p)"
  by (simp add: advance_def lexer_next_def split: list.splits)

subsection \<open>A larger bound on the nesting changes no result\<close>

lemma expression_mono:
  "expression n p = Some r \<Longrightarrow> n \<le> m \<Longrightarrow> expression m p = Some r"
proof (induction n arbitrary: p r m)
  case 0
  then show ?case by simp
next
  case (Suc n)
  then obtain k where m: "m = Suc k" and k: "n \<le> k" by (cases m) auto
  note IH = Suc.IH[OF _ k]
  show ?case
  proof (cases "ttype (token p) = ''(''")
    case True
    with Suc.prems(1) show ?thesis
      by (auto simp add: m split: option.splits sum.splits prod.splits dest!: IH)
  next
    case False
    with Suc.prems(1) show ?thesis
      by (auto simp add: m split: option.splits sum.splits prod.splits dest!: IH)
  qed
qed

subsection \<open>The parser only ever advances\<close>

lemma reaches_refl [simp]: "reaches p p"
  unfolding reaches_def by (rule exI[of _ 0]) simp

lemma reaches_advance [simp]: "reaches p (advance p)"
  unfolding reaches_def by (rule exI[of _ 1]) simp

lemma reaches_trans: "reaches p q \<Longrightarrow> reaches q r \<Longrightarrow> reaches p r"
  unfolding reaches_def by (metis funpow_add comp_apply)

lemma reaches_advance_left: "reaches (advance p) q \<Longrightarrow> reaches p q"
  using reaches_trans reaches_advance by blast

lemma variable_reaches: "variable p = (r, p') \<Longrightarrow> reaches p p'"
  by (auto simp add: variable_def error_def split: if_splits)

lemma eat_reaches: "eat pr p = (r, p') \<Longrightarrow> reaches p p'"
  by (auto simp add: eat_def error_def split: if_splits)

lemma expression_reaches:
  "expression n p = Some (r, p') \<Longrightarrow> reaches p p'"
proof (induction n arbitrary: p r p')
  case 0
  then show ?case by simp
next
  case (Suc n)
  note IH = Suc.IH
  show ?case
  proof (cases "ttype (token p) = ''(''")
    case True
    with Suc.prems show ?thesis
      by (auto split: option.splits sum.splits prod.splits
          dest!: IH eat_reaches intro: reaches_trans reaches_advance_left)
  next
    case False
    with Suc.prems show ?thesis
      by (auto simp add: error_def split: option.splits sum.splits prod.splits if_splits
          dest!: IH eat_reaches variable_reaches intro: reaches_trans reaches_advance_left)
  qed
qed

subsection \<open>What an error reports\<close>

lemma variable_found: "variable p = (Inl e, p') \<Longrightarrow> found e = ttype (token p')"
  by (auto simp add: variable_def error_def split: if_splits)

lemma eat_found: "eat pr p = (Inl e, p') \<Longrightarrow> found e = ttype (token p')"
  by (auto simp add: eat_def error_def split: if_splits)

lemma expression_found:
  "expression n p = Some (Inl e, p') \<Longrightarrow> found e = ttype (token p')"
proof (induction n arbitrary: p e p')
  case 0
  then show ?case by simp
next
  case (Suc n)
  note IH = Suc.IH
  show ?case
  proof (cases "ttype (token p) = ''(''")
    case True
    with Suc.prems show ?thesis
      by (auto split: option.splits sum.splits prod.splits dest: IH eat_found)
  next
    case False
    with Suc.prems show ?thesis
      by (auto simp add: error_def split: option.splits sum.splits prod.splits if_splits
          dest: IH eat_found variable_found)
  qed
qed

lemma expression_expected:
  "expression n p = Some (Inl e, p') \<Longrightarrow>
   expected e \<in> {''(, '' @ lam @ '', @, or SYMBOL'', ''SYMBOL'', ''.'', '')''}"
proof (induction n arbitrary: p e p')
  case 0
  then show ?case by simp
next
  case (Suc n)
  note IH = Suc.IH
  show ?case
  proof (cases "ttype (token p) = ''(''")
    case True
    with Suc.prems show ?thesis
      by (auto simp add: eat_def error_def split: option.splits sum.splits prod.splits if_splits
          dest: IH)
  next
    case False
    with Suc.prems show ?thesis
      by (auto simp add: eat_def error_def variable_def
          split: option.splits sum.splits prod.splits if_splits dest: IH)
  qed
qed

subsection \<open>Derivable token sequences\<close>

lemma depth_le_length: "derives ts e \<Longrightarrow> depth e \<le> length ts"
  by (induction rule: derives.induct) auto

lemma expression_derives:
  "derives ts e \<Longrightarrow> depth e \<le> n \<Longrightarrow>
   expression n (init \<lparr>pending = ts @ rest, end_marker = em\<rparr>)
     = Some (Inr e, init \<lparr>pending = rest, end_marker = em\<rparr>)"
proof (induction arbitrary: n rest rule: derives.induct)
  case (variable t)
  then obtain m where "n = Suc m" by (cases n) auto
  with variable show ?case
    by (simp add: variable_def advance_init)
next
  case (application l ts1 e1 ts2 e2 r)
  then obtain m where n: "n = Suc m" by (cases n) auto
  with application.prems have d: "depth e1 \<le> m" "depth e2 \<le> m" by auto
  have 1: "expression m (init \<lparr>pending = ts1 @ (ts2 @ r # rest), end_marker = em\<rparr>)
     = Some (Inr e1, init \<lparr>pending = ts2 @ r # rest, end_marker = em\<rparr>)"
    using application.IH(1)[OF d(1)] .
  have 2: "expression m (init \<lparr>pending = ts2 @ (r # rest), end_marker = em\<rparr>)
     = Some (Inr e2, init \<lparr>pending = r # rest, end_marker = em\<rparr>)"
    using application.IH(2)[OF d(2)] .
  show ?case using application.hyps(1,4) 1 2
    by (simp add: n advance_init eat_def)
next
  case (abstraction l v d ts body)
  then obtain m where n: "n = Suc m" by (cases n) auto
  with abstraction.prems have dp: "depth body \<le> m" by auto
  have 1: "expression m (init \<lparr>pending = ts @ rest, end_marker = em\<rparr>)
     = Some (Inr body, init \<lparr>pending = rest, end_marker = em\<rparr>)"
    using abstraction.IH[OF dp] .
  show ?case using abstraction.hyps(1,2,3) 1
    by (auto simp add: n advance_init eat_def variable_def)
qed

subsection \<open>Termination\<close>

lemma weight_advance:
  "\<not> starts (end_marker (lexer p)) \<Longrightarrow> weight (advance p) \<le> weight p"
  by (simp add: weight_def advance_def lexer_next_def split: list.splits)

lemma weight_advance_starts:
  "\<not> starts (end_marker (lexer p)) \<Longrightarrow> starts (token p) \<Longrightarrow>
   Suc (weight (advance p)) \<le> weight p"
  by (simp add: weight_def advance_def lexer_next_def split: list.splits)

lemma reaches_end_marker:
  assumes "reaches p p'"
  shows "end_marker (lexer p') = end_marker (lexer p)"
proof -
  have "end_marker (lexer ((advance ^^ k) p)) = end_marker (lexer p)" for k
    by (induction k) simp_all
  with assms show ?thesis
    by (auto simp add: reaches_def)
qed

lemma reaches_weight:
  assumes "\<not> starts (end_marker (lexer p))" and "reaches p p'"
  shows "weight p' \<le> weight p"
proof -
  have "weight ((advance ^^ k) p) \<le> weight p
      \<and> end_marker (lexer ((advance ^^ k) p)) = end_marker (lexer p)" for k
  proof (induction k)
    case 0
    show ?case by simp
  next
    case (Suc k)
    with assms(1) weight_advance[of "(advance ^^ k) p"] show ?case by simp
  qed
  with assms(2) show ?thesis by (auto simp add: reaches_def)
qed

lemma weight_init:
  "\<not> starts em \<Longrightarrow> weight (init \<lparr>pending = ts, end_marker = em\<rparr>) \<le> length ts"
  by (cases ts) (simp_all add: weight_def)

lemma expression_returns:
  "\<not> starts (end_marker (lexer p)) \<Longrightarrow> weight p < n \<Longrightarrow> \<exists>r. expression n p = Some r"
proof (induction n arbitrary: p)
  case 0
  then show ?case by simp
next
  case (Suc n)
  note em = Suc.prems(1)
  show ?case
  proof (cases "starts (token p)")
    case False
    then show ?thesis by (simp add: starts_def)
  next
    case True
    let ?q = "advance p"
    from em have emq: "\<not> starts (end_marker (lexer ?q))" by simp
    from weight_advance_starts[OF em True] Suc.prems(2) have wq: "weight ?q < n" by simp
    have later: "\<exists>r. expression n q' = Some r" if "reaches ?q q'" for q'
    proof -
      from reaches_weight[OF emq that] wq have "weight q' < n" by simp
      moreover from reaches_end_marker[OF that] emq
      have "\<not> starts (end_marker (lexer q'))" by simp
      ultimately show ?thesis by (rule Suc.IH[rotated])
    qed
    show ?thesis
    proof (cases "ttype (token p) = ''(''")
      case True
      from later[OF reaches_refl] obtain r1 p1 where 1: "expression n ?q = Some (r1, p1)"
        by force
      from expression_reaches[OF 1] have "reaches ?q p1" .
      from later[OF this] obtain r2 p2 where 2: "expression n p1 = Some (r2, p2)"
        by force
      from True 1 2 show ?thesis
        by (simp split: sum.splits prod.splits)
    next
      case False
      with True have l: "ttype (token p) \<in> set [lam, ''@'']" by (simp add: starts_def)
      obtain r1 p1 where 1: "variable ?q = (r1, p1)" by force
      obtain r2 p2 where 2: "eat ''.'' p1 = (r2, p2)" by force
      from variable_reaches[OF 1] eat_reaches[OF 2] have "reaches ?q p2"
        by (rule reaches_trans)
      from later[OF this] obtain r3 p3 where 3: "expression n p2 = Some (r3, p3)"
        by force
      from False l 1 2 3 show ?thesis
        by (simp split: sum.splits prod.splits)
    qed
  qed
qed

subsection \<open>The number of calls\<close>

lemma variable_weight:
  "\<not> starts (end_marker (lexer p)) \<Longrightarrow> variable p = (r, p') \<Longrightarrow> weight p' \<le> weight p"
  by (rule reaches_weight) (auto dest: variable_reaches)

lemma eat_weight:
  "\<not> starts (end_marker (lexer p)) \<Longrightarrow> eat pr p = (r, p') \<Longrightarrow> weight p' \<le> weight p"
  by (rule reaches_weight) (auto dest: eat_reaches)

lemma calls_bound:
  "\<not> starts (end_marker (lexer p)) \<Longrightarrow> expression n p = Some (r, p') \<Longrightarrow>
   calls n p + 2 * weight p' \<le> 2 * weight p + 1"
proof (induction n arbitrary: p r p')
  case 0
  then show ?case by simp
next
  case (Suc n)
  note em = Suc.prems(1)
  let ?q = "advance p"
  from em have emq: "\<not> starts (end_marker (lexer ?q))" by simp
  show ?case
  proof (cases "starts (token p)")
    case False
    from reaches_weight[OF em expression_reaches[OF Suc.prems(2)]] False show ?thesis
      by (simp add: starts_def)
  next
    case True
    from weight_advance_starts[OF em True] have wq: "Suc (weight ?q) \<le> weight p" .
    show ?thesis
    proof (cases "ttype (token p) = ''(''")
      case paren: True
      from Suc.prems(2) paren obtain r1 p1 where 1: "expression n ?q = Some (r1, p1)"
        by (auto split: option.splits)
      from Suc.IH[OF emq 1] have b1: "calls n ?q + 2 * weight p1 \<le> 2 * weight ?q + 1" .
      show ?thesis
      proof (cases r1)
        case (Inl e)
        with Suc.prems(2) paren 1 have "p' = p1" by simp
        with b1 wq paren 1 Inl show ?thesis by simp
      next
        case (Inr left_expression)
        from reaches_end_marker[OF expression_reaches[OF 1]] emq
        have em1: "\<not> starts (end_marker (lexer p1))" by simp
        from Suc.prems(2) paren 1 Inr obtain r2 p2 where 2: "expression n p1 = Some (r2, p2)"
          by (auto split: option.splits)
        from Suc.IH[OF em1 2] have b2: "calls n p1 + 2 * weight p2 \<le> 2 * weight p1 + 1" .
        from reaches_end_marker[OF expression_reaches[OF 2]] em1
        have em2: "\<not> starts (end_marker (lexer p2))" by simp
        have "weight p' \<le> weight p2"
        proof (cases r2)
          case (Inl e)
          with Suc.prems(2) paren 1 2 Inr show ?thesis by simp
        next
          case r2: (Inr right_expression)
          obtain r3 p3 where 3: "eat '')'' p2 = (r3, p3)" by force
          with Suc.prems(2) paren 1 2 Inr r2 have "p' = p3"
            by (auto split: sum.splits)
          with eat_weight[OF em2 3] show ?thesis by simp
        qed
        with b1 b2 wq paren 1 Inr show ?thesis by simp
      qed
    next
      case False
      with True have l: "ttype (token p) \<in> set [lam, ''@'']" by (simp add: starts_def)
      obtain r1 p1 where 1: "variable ?q = (r1, p1)" by force
      from variable_weight[OF emq 1] have w1: "weight p1 \<le> weight ?q" .
      from reaches_end_marker[OF variable_reaches[OF 1]] emq
      have em1: "\<not> starts (end_marker (lexer p1))" by simp
      show ?thesis
      proof (cases r1)
        case (Inl e)
        with Suc.prems(2) False l 1 have "p' = p1" by simp
        with w1 wq False l 1 Inl show ?thesis by simp
      next
        case (Inr var)
        obtain r2 p2 where 2: "eat ''.'' p1 = (r2, p2)" by force
        from eat_weight[OF em1 2] have w2: "weight p2 \<le> weight p1" .
        from reaches_end_marker[OF eat_reaches[OF 2]] em1
        have em2: "\<not> starts (end_marker (lexer p2))" by simp
        show ?thesis
        proof (cases r2)
          case (Inl e)
          with Suc.prems(2) False l 1 2 Inr have "p' = p2" by simp
          with w1 w2 wq False l 1 2 Inr Inl show ?thesis by simp
        next
          case r2: (Inr u)
          from Suc.prems(2) False l 1 2 Inr r2 obtain r3 where 3: "expression n p2 = Some (r3, p')"
            by (auto split: option.splits sum.splits)
          from Suc.IH[OF em2 3] have "calls n p2 + 2 * weight p' \<le> 2 * weight p2 + 1" .
          with w1 w2 wq False l 1 2 Inr r2 show ?thesis by simp
        qed
      qed
    qed
  qed
qed

text \<open>
  The condition on the end-marker is needed: a token source whose end-marker has the
  type \<open>(\<close> makes \<open>_expression\<close> call itself without end, whatever the bound.
\<close>

lemma expression_end_marker_paren:
  "ttype em = ''('' \<Longrightarrow>
   expression n \<lparr>lexer = \<lparr>pending = [], end_marker = em\<rparr>, token = em\<rparr> = None"
  by (induction n) (simp_all add: advance_init)

text \<open>
  The first-token error branches of \<open>_application\<close> and \<open>_abstraction\<close> are part of the
  model: called directly on a token they do not accept, the two methods raise.
\<close>

lemma application_direct_error:
  "ttype (token p) \<noteq> ''('' \<Longrightarrow>
   application n p = Some (Inl (ParserError ''('' (ttype (token p))), p)"
  by (simp add: error_def)

lemma abstraction_direct_error:
  "ttype (token p) \<notin> set [lam, ''@''] \<Longrightarrow>
   abstraction n p = Some (Inl (ParserError (lam @ '' or @'') (ttype (token p))), p)"
  by (simp add: error_def)

subsection \<open>Parsers that share a token source\<close>

lemma shared_source_differs:
  "new_Parser 0 (\<lambda>l. source [Tok ''SYMBOL'' ''x'', Tok ''SYMBOL'' ''y'']) = (a, s1) \<Longrightarrow>
   new_Parser 0 s1 = (b, s2) \<Longrightarrow>
   map_option fst (parse_obj 1 a s2) = Some (Inr (Variable ''x''))
   \<and> map_option fst (parse_obj 1 b s2) = Some (Inr (Variable ''y''))"
  by (auto simp add: new_Parser_def parse_obj_def parse_def variable_def)

subsection \<open>What a returned tree and a raised error say about the tokens read\<close>

lemma length_seen [simp]: "length (seen p k) = k"
  by (induction k arbitrary: p) simp_all

lemma seen_add: "seen p (a + b) = seen p a @ seen ((advance ^^ a) p) b"
  by (induction a arbitrary: p) (simp_all add: funpow_swap1)

lemma seen_append:
  assumes "seen p (length xs + m) = xs @ ys"
  shows "seen p (length xs) = xs \<and> seen ((advance ^^ length xs) p) m = ys"
proof -
  from assms have "seen p (length xs) @ seen ((advance ^^ length xs) p) m = xs @ ys"
    by (simp add: seen_add)
  then show ?thesis by simp
qed

lemma advance_Suc: "(advance ^^ Suc a) p = (advance ^^ a) (advance p)"
  by (simp add: funpow_swap1)

lemma advance_add: "(advance ^^ (a + b)) p = (advance ^^ b) ((advance ^^ a) p)"
  by (metis funpow_add comp_apply add.commute)

lemma advance_one: "(advance ^^ 1) p = advance p"
  by simp

lemma expression_sound:
  "expression n p = Some (Inr t, p') \<Longrightarrow> \<exists>k. derives (seen p k) t \<and> p' = (advance ^^ k) p"
proof (induction n arbitrary: p t p')
  case 0
  then show ?case by simp
next
  case (Suc n)
  let ?q = "advance p"
  show ?case
  proof (cases "ttype (token p) = ''(''")
    case paren: True
    from Suc.prems paren obtain l p1 where 1: "expression n ?q = Some (Inr l, p1)"
      by (auto split: option.splits sum.splits prod.splits)
    from Suc.prems paren 1 obtain r p2 where 2: "expression n p1 = Some (Inr r, p2)"
      by (auto split: option.splits sum.splits prod.splits)
    from Suc.prems paren 1 2 have 3: "ttype (token p2) = '')''" "p' = advance p2" "t = Application l r"
      by (auto simp add: eat_def error_def split: if_splits)
    from Suc.IH[OF 1] obtain k1 where k1: "derives (seen ?q k1) l" "p1 = (advance ^^ k1) ?q"
      by blast
    from Suc.IH[OF 2] obtain k2 where k2: "derives (seen p1 k2) r" "p2 = (advance ^^ k2) p1"
      by blast
    have "seen ?q (k1 + (k2 + 1)) = seen ?q k1 @ seen p1 (k2 + 1)"
      unfolding k1(2) by (rule seen_add)
    also have "seen p1 (k2 + 1) = seen p1 k2 @ seen p2 1"
      unfolding k2(2) by (rule seen_add)
    also have "seen p2 1 = [token p2]" by simp
    finally have "seen ?q (k1 + (k2 + 1)) = seen ?q k1 @ seen p1 k2 @ [token p2]" .
    then have s: "seen p (Suc (k1 + (k2 + 1))) = token p # seen ?q k1 @ seen p1 k2 @ [token p2]"
      by (simp only: seen.simps)
    have "derives (token p # seen ?q k1 @ seen p1 k2 @ [token p2]) (Application l r)"
      using paren k1(1) k2(1) 3(1) by (rule derives.application)
    with s 3 have d: "derives (seen p (Suc (k1 + (k2 + 1)))) t" by simp
    have "(advance ^^ (Suc (k1 + (k2 + 1)))) p = (advance ^^ 1) p2"
      unfolding k2(2) k1(2) by (simp only: advance_Suc advance_add)
    with 3(2) have "p' = (advance ^^ (Suc (k1 + (k2 + 1)))) p"
      by (simp only: advance_one)
    with d show ?thesis by blast
  next
    case False
    show ?thesis
    proof (cases "ttype (token p) \<in> set [lam, ''@'']")
      case l: True
      let ?p1 = "advance ?q"
      let ?p2 = "advance ?p1"
      from Suc.prems False l have v: "ttype (token ?q) = ''SYMBOL''"
        by (auto simp add: variable_def error_def split: if_splits)
      from Suc.prems False l v have d: "ttype (token ?p1) = ''.''"
        by (auto simp add: variable_def eat_def error_def split: if_splits)
      from Suc.prems False l v d obtain body where
        b: "expression n ?p2 = Some (Inr body, p')" "t = Abstraction (Variable (tvalue (token ?q))) body"
        by (auto simp add: variable_def eat_def split: option.splits sum.splits prod.splits)
      from Suc.IH[OF b(1)] obtain k where k: "derives (seen ?p2 k) body" "p' = (advance ^^ k) ?p2"
        by blast
      from l have "ttype (token p) = lam \<or> ttype (token p) = ''@''" by simp
      then have "derives (token p # token ?q # token ?p1 # seen ?p2 k)
          (Abstraction (Variable (tvalue (token ?q))) body)"
        using v d k(1) by (rule derives.abstraction)
      then have "derives (seen p (Suc (Suc (Suc k)))) t" using b(2) by simp
      moreover have "p' = (advance ^^ (Suc (Suc (Suc k)))) p"
        using k(2) by (simp add: funpow_swap1)
      ultimately show ?thesis by blast
    next
      case nl: False
      with Suc.prems False have "ttype (token p) = ''SYMBOL''" "t = Variable (tvalue (token p))"
          "p' = advance p"
        by (auto simp add: variable_def error_def split: if_splits)
      moreover from this(1) have "derives [token p] (Variable (tvalue (token p)))"
        by (rule derives.variable)
      ultimately have "derives (seen p 1) t \<and> p' = (advance ^^ 1) p" by simp
      then show ?thesis by blast
    qed
  qed
qed

lemma expression_derives_seen:
  "derives ts t \<Longrightarrow> seen p (length ts) = ts \<Longrightarrow> depth t \<le> n \<Longrightarrow>
   expression n p = Some (Inr t, (advance ^^ length ts) p)"
proof (induction arbitrary: p n rule: derives.induct)
  case (variable t0)
  then obtain m where "n = Suc m" by (cases n) auto
  with variable show ?case
    by (simp add: variable_def)
next
  case (application l ts1 e1 ts2 e2 r)
  then obtain m where n: "n = Suc m" by (cases n) auto
  with application.prems have d: "depth e1 \<le> m" "depth e2 \<le> m" by auto
  let ?q = "advance p"
  let ?p1 = "(advance ^^ length ts1) ?q"
  let ?p2 = "(advance ^^ length ts2) ?p1"
  from application.prems(1) have tp: "token p = l"
    and s: "seen ?q (length ts1 + (length ts2 + 1)) = ts1 @ (ts2 @ [r])"
    by simp_all
  from seen_append[OF s] have s1: "seen ?q (length ts1) = ts1"
    and s': "seen ?p1 (length ts2 + 1) = ts2 @ [r]" by simp_all
  from seen_append[OF s'] have s2: "seen ?p1 (length ts2) = ts2"
    and s3: "seen ?p2 1 = [r]" by simp_all
  from s3 have tr: "token ?p2 = r" by simp
  have 1: "expression m ?q = Some (Inr e1, ?p1)"
    using application.IH(1)[OF s1 d(1)] .
  have 2: "expression m ?p1 = Some (Inr e2, ?p2)"
    using application.IH(2)[OF s2 d(2)] .
  have "length (l # ts1 @ ts2 @ [r]) = Suc (length ts1 + (length ts2 + 1))" by simp
  then have fin: "(advance ^^ length (l # ts1 @ ts2 @ [r])) p = advance ?p2"
    by (simp only: advance_Suc advance_add advance_one)
  show ?case unfolding fin using application.hyps(1,4) tp tr 1 2
    by (simp add: n eat_def)
next
  case (abstraction l v d ts body)
  then obtain m where n: "n = Suc m" by (cases n) auto
  with abstraction.prems have dp: "depth body \<le> m" by auto
  let ?q = "advance p"
  let ?p1 = "advance ?q"
  let ?p2 = "advance ?p1"
  from abstraction.prems(1) have tk: "token p = l" "token ?q = v" "token ?p1 = d"
    and s: "seen ?p2 (length ts) = ts" by simp_all
  have 1: "expression m ?p2 = Some (Inr body, (advance ^^ length ts) ?p2)"
    using abstraction.IH[OF s dp] .
  show ?case using abstraction.hyps(1,2,3) tk 1
    by (auto simp add: n eat_def variable_def funpow_swap1)
qed

lemma expression_error_no_derivation:
  assumes "expression n p = Some (Inl e, p')"
  shows "\<not> derives (seen p k) t"
proof
  assume d: "derives (seen p k) t"
  have "seen p (length (seen p k)) = seen p k" by simp
  from expression_derives_seen[OF d this, of "max n (depth t)"]
  have "expression (max n (depth t)) p = Some (Inr t, (advance ^^ length (seen p k)) p)" by simp
  moreover from expression_mono[OF assms, of "max n (depth t)"]
  have "expression (max n (depth t)) p = Some (Inl e, p')" by simp
  ultimately show False by simp
qed

lemma expression_mismatch:
  "expression n p = Some (Inl e, p') \<Longrightarrow>
   expected e = ''(, '' @ lam @ '', @, or SYMBOL'' \<and> found e \<notin> {''('', lam, ''@'', ''SYMBOL''}
   \<or> expected e = ''SYMBOL'' \<and> found e \<noteq> ''SYMBOL''
   \<or> expected e = ''.'' \<and> found e \<noteq> ''.''
   \<or> expected e = '')'' \<and> found e \<noteq> '')''"
proof (induction n arbitrary: p e p')
  case 0
  then show ?case by simp
next
  case (Suc n)
  note IH = Suc.IH
  show ?case
  proof (cases "ttype (token p) = ''(''")
    case True
    with Suc.prems show ?thesis
      by (auto simp add: eat_def error_def split: option.splits sum.splits prod.splits if_splits
          dest: IH)
  next
    case False
    with Suc.prems show ?thesis
      by (auto simp add: eat_def error_def variable_def
          split: option.splits sum.splits prod.splits if_splits dest: IH)
  qed
qed

section \<open>The claims\<close>

text \<open>
  Claim C1. For every token sequence derivable from the grammar, \<open>parse()\<close> succeeds and
  returns the tree of the derivation: the node kind and the children at every position
  are those of the productions used. A bound of the nesting equal to the number of
  tokens is enough; the whole sequence is consumed and the current token is the
  end-marker.
\<close>

theorem parse_derivable:
  assumes "derives ts e" and "length ts \<le> n"
  shows "parse n (init \<lparr>pending = ts, end_marker = em\<rparr>)
           = Some (Inr e, \<lparr>lexer = \<lparr>pending = [], end_marker = em\<rparr>, token = em\<rparr>)"
proof -
  from assms depth_le_length[OF assms(1)] have "depth e \<le> n" by simp
  from expression_derives[OF assms(1) this, of "[]" em] show ?thesis
    by (simp add: parse_def)
qed

theorem parse_derivable_witness:
  "parse 4 (init (source [Tok ''@'' ''@'', Tok ''SYMBOL'' ''f'', Tok ''.'' ''.'',
                          Tok ''SYMBOL'' ''f'']))
     = Some (Inr (Abstraction (Variable ''f'') (Variable ''f'')), at EOF [])"
proof -
  let ?f = "Tok ''SYMBOL'' ''f''"
  have "derives [?f] (Variable (tvalue ?f))"
    by (rule derives.variable) simp
  then have d: "derives [Tok ''@'' ''@'', ?f, Tok ''.'' ''.'', ?f]
        (Abstraction (Variable (tvalue ?f)) (Variable (tvalue ?f)))"
    by (intro derives.abstraction) simp_all
  have l: "length [Tok ''@'' ''@'', ?f, Tok ''.'' ''.'', ?f] \<le> 4"
    by simp
  from parse_derivable[OF d l] show ?thesis by simp
qed

text \<open>
  Claim C2. When the type of the first token is none of \<open>(\<close>, \<open>\<lambda>\<close>, \<open>@\<close> and \<open>SYMBOL\<close>,
  \<open>parse()\<close> raises the error whose \<open>expected\<close> lists the four options and whose \<open>found\<close>
  is the type of that token, and the parser is left as the constructor made it: the
  failing dispatch consumed nothing. The empty stream, whose first token is the
  end-marker, is such a stream.
\<close>

theorem parse_rejects_first_token:
  "(ttype (fst (lexer_next lx)) \<notin> {''('', lam, ''@'', ''SYMBOL''} \<longrightarrow>
      parse (Suc n) (init lx)
        = Some (Inl (ParserError (''(, '' @ lam @ '', @, or SYMBOL'')
                       (ttype (fst (lexer_next lx)))),
                init lx))
   \<and> (ttype em \<notin> {''('', lam, ''@'', ''SYMBOL''} \<longrightarrow>
      parse (Suc n) (init \<lparr>pending = [], end_marker = em\<rparr>)
        = Some (Inl (ParserError (''(, '' @ lam @ '', @, or SYMBOL'') (ttype em)),
                \<lparr>lexer = \<lparr>pending = [], end_marker = em\<rparr>, token = em\<rparr>))"
  by (simp add: parse_def error_def token_init)

theorem parse_rejects_first_token_witness:
  "parse 1 (init (source [Tok '')'' '')'', Tok ''SYMBOL'' ''x'']))
     = Some (Inl (ParserError (''(, '' @ lam @ '', @, or SYMBOL'') '')''),
             at (Tok '')'' '')'') [Tok ''SYMBOL'' ''x''])
   \<and> parse 1 (init (source []))
     = Some (Inl (ParserError (''(, '' @ lam @ '', @, or SYMBOL'') ''EOF''), at EOF [])"
  using parse_rejects_first_token[of "source [Tok '')'' '')'', Tok ''SYMBOL'' ''x'']" 0 EOF]
  by (simp add: lexer_next_def)

text \<open>
  Claim C3. \<open>parse()\<close> makes no end-of-stream check: when a prefix of the stream is a
  complete derivation, \<open>parse()\<close> returns the tree of that prefix whatever tokens follow.
  Of the trailing tokens only the first is pulled, as the current token; the others stay
  in the source.
\<close>

theorem parse_ignores_trailing_tokens:
  assumes "derives ts e" and "length ts \<le> n"
  shows "parse n (init \<lparr>pending = ts @ rest, end_marker = em\<rparr>)
           = Some (Inr e, init \<lparr>pending = rest, end_marker = em\<rparr>)"
proof -
  from assms depth_le_length[OF assms(1)] have "depth e \<le> n" by simp
  from expression_derives[OF assms(1) this] show ?thesis
    by (simp add: parse_def)
qed

theorem parse_ignores_trailing_tokens_witness:
  "parse 1 (init (source [Tok ''SYMBOL'' ''x'', Tok '')'' '')'', Tok ''?'' ''?'']))
     = Some (Inr (Variable ''x''), at (Tok '')'' '')'') [Tok ''?'' ''?''])"
proof -
  let ?x = "Tok ''SYMBOL'' ''x''"
  have d: "derives [?x] (Variable (tvalue ?x))"
    by (rule derives.variable) simp
  have l: "length [?x] \<le> 1" by simp
  from parse_ignores_trailing_tokens[OF d l, of "[Tok '')'' '')'', Tok ''?'' ''?'']" EOF]
  show ?thesis by simp
qed

text \<open>
  Claim C4. A failure of \<open>parse()\<close> is a \<open>ParserError\<close> with its two fields. \<open>found\<close> is the
  type of the token the parser stands on when it stops, which it reached by advancing
  only; \<open>expected\<close> is one of the four texts of the grammar and names token types that
  \<open>found\<close> is not; and no run of tokens read from the start is a derivation, so the
  failure is a real mismatch. A returned tree is the tree of a derivation of exactly the
  tokens consumed: no partial tree is returned. The first mismatch ends the parse, at
  each of the seven places where one can occur: the dispatch, the function position,
  the argument position, the closing parenthesis, the bound variable, the dot and the
  body. There the enclosing call raises that very error with the parser as the
  mismatch left it, and parses nothing further.
\<close>

theorem parse_error_contract:
  "(parse n p = Some (Inl e, p') \<longrightarrow>
      found e = ttype (token p') \<and> (\<exists>k. p' = (advance ^^ k) p)
      \<and> (expected e = ''(, '' @ lam @ '', @, or SYMBOL''
            \<and> found e \<notin> {''('', lam, ''@'', ''SYMBOL''}
          \<or> expected e = ''SYMBOL'' \<and> found e \<noteq> ''SYMBOL''
          \<or> expected e = ''.'' \<and> found e \<noteq> ''.''
          \<or> expected e = '')'' \<and> found e \<noteq> '')'')
      \<and> (\<forall>k t. \<not> derives (seen p k) t))
   \<and> (parse n0 p0 = Some (Inr t0, p0') \<longrightarrow>
      (\<exists>k. derives (seen p0 k) t0 \<and> p0' = (advance ^^ k) p0))
   \<and> (ttype (token qa) \<notin> set [''('', lam, ''@'', ''SYMBOL''] \<longrightarrow>
      parse (Suc m) qa
        = Some (Inl (ParserError (''(, '' @ lam @ '', @, or SYMBOL'') (ttype (token qa))), qa))
   \<and> (ttype (token qb) = ''('' \<and> expression m (advance qb) = Some (Inl eb, qb1) \<longrightarrow>
      parse (Suc m) qb = Some (Inl eb, qb1))
   \<and> (ttype (token qc) = ''('' \<and> expression m (advance qc) = Some (Inr lc, qc1)
        \<and> expression m qc1 = Some (Inl ec, qc2) \<longrightarrow>
      parse (Suc m) qc = Some (Inl ec, qc2))
   \<and> (ttype (token qd) = ''('' \<and> expression m (advance qd) = Some (Inr ld, qd1)
        \<and> expression m qd1 = Some (Inr rd, qd2) \<and> ttype (token qd2) \<noteq> '')'' \<longrightarrow>
      parse (Suc m) qd = Some (Inl (ParserError '')'' (ttype (token qd2))), qd2))
   \<and> (ttype (token qe) \<in> set [lam, ''@''] \<and> ttype (token (advance qe)) \<noteq> ''SYMBOL'' \<longrightarrow>
      parse (Suc m) qe
        = Some (Inl (ParserError ''SYMBOL'' (ttype (token (advance qe)))), advance qe))
   \<and> (ttype (token qf) \<in> set [lam, ''@''] \<and> ttype (token (advance qf)) = ''SYMBOL''
        \<and> ttype (token (advance (advance qf))) \<noteq> ''.'' \<longrightarrow>
      parse (Suc m) qf
        = Some (Inl (ParserError ''.'' (ttype (token (advance (advance qf))))),
                advance (advance qf)))
   \<and> (ttype (token qg) \<in> set [lam, ''@''] \<and> ttype (token (advance qg)) = ''SYMBOL''
        \<and> ttype (token (advance (advance qg))) = ''.''
        \<and> expression m (advance (advance (advance qg))) = Some (Inl eg, qg1) \<longrightarrow>
      parse (Suc m) qg = Some (Inl eg, qg1))"
proof (intro conjI impI allI)
  assume "parse n p = Some (Inl e, p')"
  then have h: "expression n p = Some (Inl e, p')" by (simp add: parse_def)
  from expression_found[OF h] show "found e = ttype (token p')" .
  from expression_reaches[OF h] show "\<exists>k. p' = (advance ^^ k) p" by (simp add: reaches_def)
  from expression_mismatch[OF h]
  show "expected e = ''(, '' @ lam @ '', @, or SYMBOL''
            \<and> found e \<notin> {''('', lam, ''@'', ''SYMBOL''}
          \<or> expected e = ''SYMBOL'' \<and> found e \<noteq> ''SYMBOL''
          \<or> expected e = ''.'' \<and> found e \<noteq> ''.''
          \<or> expected e = '')'' \<and> found e \<noteq> '')''" .
  fix k t
  from expression_error_no_derivation[OF h] show "\<not> derives (seen p k) t" .
next
  assume "parse n0 p0 = Some (Inr t0, p0')"
  then have "expression n0 p0 = Some (Inr t0, p0')" by (simp add: parse_def)
  then show "\<exists>k. derives (seen p0 k) t0 \<and> p0' = (advance ^^ k) p0"
    by (rule expression_sound)
qed (auto simp add: parse_def error_def eat_def variable_def)

theorem parse_error_contract_witness:
  "found (ParserError ''.'' '')'') = ttype (token (at (Tok '')'' '')'') [Tok ''SYMBOL'' ''y'']))
   \<and> (\<exists>k. at (Tok '')'' '')'') [Tok ''SYMBOL'' ''y'']
          = (advance ^^ k) (at (Tok ''@'' ''@'')
               [Tok ''SYMBOL'' ''x'', Tok '')'' '')'', Tok ''SYMBOL'' ''y'']))
   \<and> (\<forall>k t. \<not> derives (seen (at (Tok ''@'' ''@'')
               [Tok ''SYMBOL'' ''x'', Tok '')'' '')'', Tok ''SYMBOL'' ''y'']) k) t)
   \<and> (\<exists>k. derives (seen (at (Tok ''SYMBOL'' ''x'') [Tok '')'' '')'']) k) (Variable ''x'')
          \<and> at (Tok '')'' '')'') [] = (advance ^^ k) (at (Tok ''SYMBOL'' ''x'') [Tok '')'' '')'']))
   \<and> parse 2 (at (Tok '')'' '')'') [])
       = Some (Inl (ParserError (''(, '' @ lam @ '', @, or SYMBOL'') '')''),
               at (Tok '')'' '')'') [])
   \<and> parse 2 (at (Tok ''('' ''('') [Tok ''.'' ''.''])
       = Some (Inl (ParserError (''(, '' @ lam @ '', @, or SYMBOL'') ''.''),
               at (Tok ''.'' ''.'') [])
   \<and> parse 2 (at (Tok ''('' ''('') [Tok ''SYMBOL'' ''x'', Tok ''.'' ''.''])
       = Some (Inl (ParserError (''(, '' @ lam @ '', @, or SYMBOL'') ''.''),
               at (Tok ''.'' ''.'') [])
   \<and> parse 2 (at (Tok ''('' ''('') [Tok ''SYMBOL'' ''x'', Tok ''SYMBOL'' ''y'', Tok ''.'' ''.''])
       = Some (Inl (ParserError '')'' ''.''), at (Tok ''.'' ''.'') [])
   \<and> parse 2 (at (Tok ''@'' ''@'') [Tok '')'' '')''])
       = Some (Inl (ParserError ''SYMBOL'' '')''), at (Tok '')'' '')'') [])
   \<and> parse 2 (at (Tok ''@'' ''@'') [Tok ''SYMBOL'' ''x'', Tok '')'' '')''])
       = Some (Inl (ParserError ''.'' '')''), at (Tok '')'' '')'') [])
   \<and> parse 2 (at (Tok ''@'' ''@'') [Tok ''SYMBOL'' ''x'', Tok ''.'' ''.'', Tok '')'' '')''])
       = Some (Inl (ParserError (''(, '' @ lam @ '', @, or SYMBOL'') '')''),
               at (Tok '')'' '')'') [])"
proof -
  let ?msg = "''(, '' @ lam @ '', @, or SYMBOL''"
  let ?x = "Tok ''SYMBOL'' ''x''"
  let ?y = "Tok ''SYMBOL'' ''y''"
  let ?dot = "Tok ''.'' ''.''"
  let ?rp = "Tok '')'' '')''"
  let ?lp = "Tok ''('' ''(''"
  let ?at = "Tok ''@'' ''@''"
  let ?p = "at ?at [?x, ?rp, ?y]"
  let ?ps = "at ?x [?rp]"
  let ?qa = "at ?rp []"
  let ?qb = "at ?lp [?dot]"
  let ?qc = "at ?lp [?x, ?dot]"
  let ?qd = "at ?lp [?x, ?y, ?dot]"
  let ?qe = "at ?at [?rp]"
  let ?qf = "at ?at [?x, ?rp]"
  let ?qg = "at ?at [?x, ?dot, ?rp]"
  have 1: "parse 3 ?p = Some (Inl (ParserError ''.'' '')''), at ?rp [?y])"
    by (simp add: parse_def numeral_3_eq_3 advance_init variable_def eat_def error_def)
  have 2: "parse 1 ?ps = Some (Inr (Variable ''x''), at ?rp [])"
    by (simp add: parse_def advance_init variable_def)
  have a: "ttype (token ?qa) \<notin> set [''('', lam, ''@'', ''SYMBOL'']"
    by simp
  have b: "ttype (token ?qb) = ''(''
        \<and> expression 1 (advance ?qb) = Some (Inl (ParserError ?msg ''.''), at ?dot [])"
    by (simp add: advance_init error_def)
  have c: "ttype (token ?qc) = ''(''
        \<and> expression 1 (advance ?qc) = Some (Inr (Variable ''x''), at ?dot [])
        \<and> expression 1 (at ?dot []) = Some (Inl (ParserError ?msg ''.''), at ?dot [])"
    by (simp add: advance_init error_def variable_def)
  have d: "ttype (token ?qd) = ''(''
        \<and> expression 1 (advance ?qd) = Some (Inr (Variable ''x''), at ?y [?dot])
        \<and> expression 1 (at ?y [?dot]) = Some (Inr (Variable ''y''), at ?dot [])
        \<and> ttype (token (at ?dot [])) \<noteq> '')''"
    by (simp add: advance_init variable_def)
  have e: "ttype (token ?qe) \<in> set [lam, ''@''] \<and> ttype (token (advance ?qe)) \<noteq> ''SYMBOL''"
    by (simp add: advance_init)
  have f: "ttype (token ?qf) \<in> set [lam, ''@''] \<and> ttype (token (advance ?qf)) = ''SYMBOL''
        \<and> ttype (token (advance (advance ?qf))) \<noteq> ''.''"
    by (simp add: advance_init)
  have g: "ttype (token ?qg) \<in> set [lam, ''@''] \<and> ttype (token (advance ?qg)) = ''SYMBOL''
        \<and> ttype (token (advance (advance ?qg))) = ''.''
        \<and> expression 1 (advance (advance (advance ?qg)))
            = Some (Inl (ParserError ?msg '')''), at ?rp [])"
    by (simp add: advance_init error_def)
  have adv: "advance ?qe = at ?rp []" "advance (advance ?qf) = at ?rp []"
    by (simp_all add: advance_init)
  note T = parse_error_contract[where n = 3 and p = ?p and e = "ParserError ''.'' '')''"
      and p' = "at ?rp [?y]" and ?n0.0 = 1 and ?p0.0 = ?ps and ?t0.0 = "Variable ''x''"
      and ?p0' = "at ?rp []" and m = 1 and qa = ?qa
      and qb = ?qb and eb = "ParserError ?msg ''.''" and ?qb1.0 = "at ?dot []"
      and qc = ?qc and lc = "Variable ''x''" and ?qc1.0 = "at ?dot []"
      and ec = "ParserError ?msg ''.''" and ?qc2.0 = "at ?dot []"
      and qd = ?qd and ld = "Variable ''x''" and ?qd1.0 = "at ?y [?dot]"
      and rd = "Variable ''y''" and ?qd2.0 = "at ?dot []"
      and qe = ?qe and qf = ?qf
      and qg = ?qg and eg = "ParserError ?msg '')''" and ?qg1.0 = "at ?rp []"]
  from T 1 2 a b c d e f g show ?thesis
    unfolding adv by (simp add: numeral_2_eq_2)
qed

text \<open>
  Claim C5. The tokens \<open>(\<close>, \<open>SYMBOL a\<close>, \<open>SYMBOL b\<close>, \<open>)\<close> give the application whose
  function position is the variable \<open>a\<close> and whose argument position is the variable
  \<open>b\<close>, for all names: with \<open>x\<close> and \<open>y\<close> it is \<open>Application x y\<close>, and with the two
  tokens swapped it is \<open>Application y x\<close>.
\<close>

theorem parse_application_order:
  "parse (Suc (Suc n))
     (init \<lparr>pending = [\<lparr>ttype = ''('', tvalue = v\<rparr>,
                        \<lparr>ttype = ''SYMBOL'', tvalue = a\<rparr>,
                        \<lparr>ttype = ''SYMBOL'', tvalue = b\<rparr>,
                        \<lparr>ttype = '')'', tvalue = w\<rparr>],
             end_marker = em\<rparr>)
     = Some (Inr (Application (Variable a) (Variable b)),
             \<lparr>lexer = \<lparr>pending = [], end_marker = em\<rparr>, token = em\<rparr>)"
  by (simp add: parse_def advance_init variable_def eat_def)

theorem parse_application_order_witness:
  "parse 2 (init (source [Tok ''('' ''('', Tok ''SYMBOL'' ''x'', Tok ''SYMBOL'' ''y'',
                          Tok '')'' '')'']))
     = Some (Inr (Application (Variable ''x'') (Variable ''y'')), at EOF [])
   \<and> parse 2 (init (source [Tok ''('' ''('', Tok ''SYMBOL'' ''y'', Tok ''SYMBOL'' ''x'',
                          Tok '')'' '')'']))
     = Some (Inr (Application (Variable ''y'') (Variable ''x'')), at EOF [])"
  using parse_application_order[of 0 "''(''" "''x''" "''y''" "'')''" EOF]
    parse_application_order[of 0 "''(''" "''y''" "''x''" "'')''" EOF]
  by (simp add: numeral_2_eq_2)

text \<open>
  Claim C6. \<open>\<lambda>\<close> and \<open>@\<close> are two spellings of one introducer: a stream that begins with
  a \<open>\<lambda>\<close> token and the stream with an \<open>@\<close> token in its place have the same outcome of
  \<open>parse()\<close> (the same tree or the same error, and the same final parser). In
  particular \<open>\<lambda>x.x\<close> and \<open>@x.x\<close> both give the abstraction with bound variable \<open>x\<close> and
  body the variable \<open>x\<close>.
\<close>

theorem lambda_at_equivalent:
  assumes "ttype t1 = lam" and "ttype t2 = ''@''"
  shows "parse n (init \<lparr>pending = t1 # ts, end_marker = em\<rparr>)
           = parse n (init \<lparr>pending = t2 # ts, end_marker = em\<rparr>)
       \<and> parse (Suc (Suc m))
           (init \<lparr>pending = [t1, \<lparr>ttype = ''SYMBOL'', tvalue = ''x''\<rparr>,
                              \<lparr>ttype = ''.'', tvalue = v\<rparr>,
                              \<lparr>ttype = ''SYMBOL'', tvalue = ''x''\<rparr>],
                   end_marker = em\<rparr>)
           = Some (Inr (Abstraction (Variable ''x'') (Variable ''x'')),
                   \<lparr>lexer = \<lparr>pending = [], end_marker = em\<rparr>, token = em\<rparr>)
       \<and> parse (Suc (Suc m))
           (init \<lparr>pending = [t2, \<lparr>ttype = ''SYMBOL'', tvalue = ''x''\<rparr>,
                              \<lparr>ttype = ''.'', tvalue = v\<rparr>,
                              \<lparr>ttype = ''SYMBOL'', tvalue = ''x''\<rparr>],
                   end_marker = em\<rparr>)
           = Some (Inr (Abstraction (Variable ''x'') (Variable ''x'')),
                   \<lparr>lexer = \<lparr>pending = [], end_marker = em\<rparr>, token = em\<rparr>)"
proof (intro conjI)
  show "parse n (init \<lparr>pending = t1 # ts, end_marker = em\<rparr>)
           = parse n (init \<lparr>pending = t2 # ts, end_marker = em\<rparr>)"
    using assms by (cases n) (simp_all add: parse_def advance_init)
qed (use assms in \<open>simp_all add: parse_def advance_init variable_def eat_def\<close>)

theorem lambda_at_equivalent_witness:
  "parse 2 (init (source [Tok lam lam, Tok ''SYMBOL'' ''x'', Tok '')'' '')'']))
     = parse 2 (init (source [Tok ''@'' ''@'', Tok ''SYMBOL'' ''x'', Tok '')'' '')'']))
   \<and> parse 2 (init (source [Tok lam lam, Tok ''SYMBOL'' ''x'', Tok ''.'' ''.'',
                            Tok ''SYMBOL'' ''x'']))
     = Some (Inr (Abstraction (Variable ''x'') (Variable ''x'')), at EOF [])
   \<and> parse 2 (init (source [Tok ''@'' ''@'', Tok ''SYMBOL'' ''x'', Tok ''.'' ''.'',
                            Tok ''SYMBOL'' ''x'']))
     = Some (Inr (Abstraction (Variable ''x'') (Variable ''x'')), at EOF [])"
proof -
  have 1: "ttype (Tok lam lam) = lam" by simp
  have 2: "ttype (Tok ''@'' ''@'') = ''@''" by simp
  from lambda_at_equivalent[OF 1 2, of 2 "[Tok ''SYMBOL'' ''x'', Tok '')'' '')'']" EOF 0 "''.''"]
  show ?thesis by (simp only: numeral_2_eq_2)
qed

text \<open>
  Claim C7. The tokens \<open>(\<close>, \<open>SYMBOL x\<close>, \<open>SYMBOL y\<close> followed by the end-marker where
  \<open>)\<close> should be: \<open>parse()\<close> raises the error with \<open>expected = )\<close> and \<open>found\<close> the type of
  the end-marker. \<open>_eat\<close> on a token of another type than the predicted one raises and
  leaves the parser as it was: the token is not consumed.
\<close>

theorem missing_close_paren:
  "(ttype em \<noteq> '')'' \<longrightarrow>
      parse (Suc (Suc n))
        (init \<lparr>pending = [\<lparr>ttype = ''('', tvalue = v\<rparr>,
                           \<lparr>ttype = ''SYMBOL'', tvalue = ''x''\<rparr>,
                           \<lparr>ttype = ''SYMBOL'', tvalue = ''y''\<rparr>],
                end_marker = em\<rparr>)
        = Some (Inl (ParserError '')'' (ttype em)),
                \<lparr>lexer = \<lparr>pending = [], end_marker = em\<rparr>, token = em\<rparr>))
   \<and> (ttype (token p) \<noteq> prediction \<longrightarrow>
      eat prediction p = (Inl (ParserError prediction (ttype (token p))), p))"
  by (simp add: parse_def advance_init variable_def eat_def error_def)

theorem missing_close_paren_witness:
  "parse 2 (init (source [Tok ''('' ''('', Tok ''SYMBOL'' ''x'', Tok ''SYMBOL'' ''y'']))
     = Some (Inl (ParserError '')'' ''EOF''), at EOF [])
   \<and> eat '')'' (at (Tok ''.'' ''.'') [Tok ''SYMBOL'' ''z''])
     = (Inl (ParserError '')'' ''.''), at (Tok ''.'' ''.'') [Tok ''SYMBOL'' ''z''])"
  using missing_close_paren[of EOF 0 "''(''" "at (Tok ''.'' ''.'') [Tok ''SYMBOL'' ''z'']" "'')''"]
  by (simp add: numeral_2_eq_2)

text \<open>
  Claim C8. Two parser objects, each constructed over its own token source, the two
  sources holding the same tokens, give equal results of \<open>parse()\<close>: the same tree or the
  same error. The first parse does not disturb the second, and the result does not
  depend on the bound of the nesting once both parses finish.
\<close>

theorem parse_deterministic:
  assumes "l1 \<noteq> l2" and "s l1 = s l2"
    and "new_Parser l1 s = (a, s1)" and "new_Parser l2 s1 = (b, s2)"
    and "parse_obj n a s2 = Some (r1, a', s3)" and "parse_obj m b s3 = Some (r2, b', s4)"
  shows "r1 = r2"
proof -
  let ?p = "init (s l1)"
  from assms(3) have a: "a = \<lparr>lexer_ref = l1, current = token ?p\<rparr>" "s1 = s(l1 := lexer ?p)"
    by (simp_all add: new_Parser_def Let_def)
  from assms(4) a assms(1,2) have b: "b = \<lparr>lexer_ref = l2, current = token ?p\<rparr>"
      "s2 = s1(l2 := lexer ?p)"
    by (auto simp add: new_Parser_def Let_def)
  from a b assms(1) have pa: "\<lparr>lexer = s2 (lexer_ref a), token = current a\<rparr> = ?p"
    by simp
  with assms(5) obtain q1 where 1: "expression n ?p = Some (r1, q1)"
      and s3: "s3 = s2(l1 := lexer q1)"
    by (auto simp add: parse_obj_def parse_def a split: option.splits prod.splits)
  from s3 b assms(1) have "\<lparr>lexer = s3 (lexer_ref b), token = current b\<rparr> = ?p"
    by simp
  with assms(6) obtain q2 where 2: "expression m ?p = Some (r2, q2)"
    by (auto simp add: parse_obj_def parse_def split: option.splits prod.splits)
  from expression_mono[OF 1, of "max n m"] expression_mono[OF 2, of "max n m"]
  show ?thesis by simp
qed

theorem parse_deterministic_witness:
  "(case new_Parser 0 (\<lambda>l. source [Tok ''SYMBOL'' ''x'', Tok ''SYMBOL'' ''y'']) of
      (a, s1) \<Rightarrow>
        (case new_Parser 1 s1 of
           (b, s2) \<Rightarrow>
             (case parse_obj 1 a s2 of
                None \<Rightarrow> False
              | Some (r1, a', s3) \<Rightarrow>
                  (case parse_obj 2 b s3 of
                     None \<Rightarrow> False
                   | Some (r2, b', s4) \<Rightarrow> r1 = r2 \<and> r2 = Inr (Variable ''x'')))))"
proof -
  let ?x = "Tok ''SYMBOL'' ''x''"
  let ?y = "Tok ''SYMBOL'' ''y''"
  let ?s = "\<lambda>l::nat. source [?x, ?y]"
  let ?a = "\<lparr>lexer_ref = 0, current = ?x\<rparr>"
  let ?b = "\<lparr>lexer_ref = 1, current = ?x\<rparr>"
  let ?s1 = "?s(0 := source [?y])"
  let ?s2 = "?s1(1 := source [?y])"
  let ?s3 = "?s2(0 := source [])"
  let ?s4 = "?s3(1 := source [])"
  have 1: "(0::nat) \<noteq> 1" by simp
  have 2: "?s 0 = ?s 1" by simp
  have 3: "new_Parser 0 ?s = (?a, ?s1)" by (simp add: new_Parser_def)
  have 4: "new_Parser 1 ?s1 = (?b, ?s2)" by (simp add: new_Parser_def)
  have 5: "parse_obj 1 ?a ?s2 = Some (Inr (Variable ''x''), ?a\<lparr>current := ?y\<rparr>, ?s3)"
    by (simp add: parse_obj_def parse_def variable_def advance_init)
  have 6: "parse_obj 2 ?b ?s3 = Some (Inr (Variable ''x''), ?b\<lparr>current := ?y\<rparr>, ?s4)"
    by (simp add: parse_obj_def parse_def variable_def advance_init numeral_2_eq_2)
  from parse_deterministic[OF 1 2 3 4 5 6] show ?thesis
    by (simp only: 3 4 5 6 prod.case option.case simp_thms)
qed

text \<open>
  Claim C9. Over a token source that yields finitely many tokens and then the
  end-marker for ever, \<open>parse()\<close> terminates, returning a tree or raising an error. Every
  call of \<open>_expression\<close> made from within \<open>_expression\<close> comes after a token was
  consumed, so a nesting of one more than the number of tokens is never exceeded, and
  the number of calls of \<open>_expression\<close> is at most twice the number of tokens, plus one.
  The end-marker is a token type of its own: it is none of \<open>(\<close>, \<open>\<lambda>\<close> and \<open>@\<close>, on which
  \<open>_expression\<close> calls itself.
\<close>

theorem parse_terminates:
  assumes "ttype em \<notin> {''('', lam, ''@''}" and "length ts < n"
  shows "(\<exists>r p'. parse n (init \<lparr>pending = ts, end_marker = em\<rparr>) = Some (r, p'))
       \<and> calls n (init \<lparr>pending = ts, end_marker = em\<rparr>) \<le> 2 * length ts + 1"
proof -
  let ?p = "init \<lparr>pending = ts, end_marker = em\<rparr>"
  from assms(1) have em: "\<not> starts em" by (simp add: starts_def)
  have lx: "end_marker (lexer ?p) = em" by (cases ts) simp_all
  from weight_init[OF em, of ts] have w: "weight ?p \<le> length ts" .
  with assms(2) have "weight ?p < n" by simp
  with expression_returns[of ?p n] em lx obtain r p' where r: "expression n ?p = Some (r, p')"
    by auto
  from calls_bound[OF _ r] em lx have "calls n ?p + 2 * weight p' \<le> 2 * weight ?p + 1"
    by simp
  with w r show ?thesis by (simp add: parse_def)
qed

theorem parse_terminates_witness:
  "(\<exists>r p'. parse 3 (init (source [Tok ''('' ''('', Tok ''@'' ''@''])) = Some (r, p'))
   \<and> calls 3 (init (source [Tok ''('' ''('', Tok ''@'' ''@''])) \<le> 2 * 2 + 1"
proof -
  have 1: "ttype EOF \<notin> {''('', lam, ''@''}" by simp
  have 2: "length [Tok ''('' ''('', Tok ''@'' ''@''] < 3" by simp
  from parse_terminates[OF 1 2] show ?thesis by simp
qed

text \<open>
  Claim C10. No error that comes out of \<open>parse()\<close> has \<open>expected\<close> equal to \<open>(\<close> or to
  \<open>\<lambda> or @\<close>: \<open>_expression\<close> enters \<open>_application\<close> and \<open>_abstraction\<close> only on a token
  they accept, so their first-token error branches are never taken. Every error has
  \<open>expected\<close> among the four-option message, \<open>SYMBOL\<close>, \<open>.\<close> and \<open>)\<close>.
\<close>

theorem parse_error_expected:
  assumes "parse n p = Some (Inl e, p')"
  shows "expected e \<noteq> ''('' \<and> expected e \<noteq> lam @ '' or @''
       \<and> expected e \<in> {''(, '' @ lam @ '', @, or SYMBOL'', ''SYMBOL'', ''.'', '')''}"
  using assms expression_expected[of n p e p'] by (auto simp add: parse_def)

theorem parse_error_expected_witness:
  "expected (ParserError ''SYMBOL'' ''('') \<noteq> ''(''
   \<and> expected (ParserError ''SYMBOL'' ''('') \<noteq> lam @ '' or @''
   \<and> expected (ParserError ''SYMBOL'' ''('')
       \<in> {''(, '' @ lam @ '', @, or SYMBOL'', ''SYMBOL'', ''.'', '')''}"
proof -
  have h: "parse 2 (init (source [Tok lam lam, Tok ''('' ''('']))
     = Some (Inl (ParserError ''SYMBOL'' ''(''), at (Tok ''('' ''('') [])"
    by (simp add: parse_def numeral_2_eq_2 advance_init variable_def error_def)
  from parse_error_expected[OF h] show ?thesis .
qed

end
